theory Spec2Isabelle
  imports Main
begin

section \<open>Opticom chat server: the session manager of \<open>opticom.cpp\<close>\<close>

text \<open>
  The development embeds the class \<open>ChatServer\<close> of \<open>src/opticom.cpp\<close>: the registry
  \<open>clients\<close>, the per-room backlog \<open>room_history\<close>, and the member functions
  \<open>handleClient\<close>, \<open>sendRoomHistory\<close>, \<open>addToHistory\<close>, \<open>broadcastMessage\<close>,
  \<open>removeClient\<close> and \<open>stop\<close>.

  Conventions of the embedding.
  \<^item> A socket is the C \<open>int\<close> returned by \<open>accept\<close>; the program only compares sockets, so
    they are HOL integers. Sizes (\<open>size_t\<close>) are natural numbers: the program adds the
    constant 15 to a string length and compares a vector length with 50, nothing wraps.
  \<^item> A \<open>std::string\<close> is a \<open>string\<close> (a list of 8-bit characters).
  \<^item> Every call of \<open>send\<close> and \<open>close\<close> is recorded, in program order, in the field
    \<open>io\<close> of the state. The value \<open>send\<close> returns is chosen by the environment; it is
    a parameter \<open>net\<close> that may depend on everything written so far.
  \<^item> What \<open>recv\<close> delivers, the broken-down local time and the values of the two
    shutdown flags at each loop test are inputs.
  \<^item> Constructing a \<open>std::string\<close> from a buffer that holds no terminating zero byte
    reads past the buffer; the model returns \<open>None\<close> there.
  \<^item> The operator log on \<open>cout\<close> is not modelled.
  \<^item> The member functions are first given as sequential code (one handler, nobody else
    running). The handlers are threads; their interleaving is the small-step model of the
    subsection on several handlers.
\<close>

subsection \<open>Bytes and C strings\<close>

definition NUL :: char where
  "NUL = CHR 0x00"

definition newline :: char where
  "newline = CHR 0x0A"

text \<open>\<open>s.c_str()\<close>: the characters of \<open>s\<close> followed by the terminating zero byte.\<close>

definition c_str :: "string \<Rightarrow> string" where
  "c_str s = s @ [NUL]"

text \<open>
  \<open>name.erase(remove(name.begin(), name.end(), '\n'), name.end())\<close>: every newline
  character is dropped, wherever it stands.
\<close>

definition erase_newlines :: "string \<Rightarrow> string" where
  "erase_newlines s = filter (\<lambda>c. c \<noteq> newline) s"

subsection \<open>The environment: send, close, recv, the clock\<close>

datatype event =
    Send int string int   \<comment> \<open>socket, the bytes handed to \<open>send\<close>, the value \<open>send\<close> returned\<close>
  | Close int             \<comment> \<open>\<open>close(socket)\<close>\<close>

type_synonym network = "event list \<Rightarrow> int \<Rightarrow> string \<Rightarrow> int"

text \<open>
  \<open>send(sk, p, n, 0)\<close> hands the first \<open>n\<close> bytes at \<open>p\<close> to the transport. It returns
  the value the environment chooses and the trace extended by the call.
\<close>

definition send :: "network \<Rightarrow> int \<Rightarrow> string \<Rightarrow> nat \<Rightarrow> event list \<Rightarrow> int \<times> event list" where
  "send net sk p n tr =
     (let bytes = take n p; r = net tr sk bytes in (r, tr @ [Send sk bytes r]))"

datatype recv_outcome =
    Recv_error          \<comment> \<open>\<open>recv\<close> returns a negative value\<close>
  | Recv_eof            \<comment> \<open>\<open>recv\<close> returns 0: the peer has closed the connection\<close>
  | Recv_data string    \<comment> \<open>\<open>recv\<close> returns the number of bytes it stored\<close>

definition BUFFER_SIZE :: nat where
  "BUFFER_SIZE = 1024"

text \<open>
  \<open>memset(buffer, 0, sizeof(buffer)); bytes = recv(sk, buffer, sizeof(buffer), 0)\<close>:
  the value returned and the buffer afterwards. At most \<open>sizeof(buffer)\<close> bytes are stored.
\<close>

definition recv :: "recv_outcome \<Rightarrow> int \<times> string" where
  "recv r =
     (case r of
        Recv_error \<Rightarrow> (- 1, replicate BUFFER_SIZE NUL)
      | Recv_eof \<Rightarrow> (0, replicate BUFFER_SIZE NUL)
      | Recv_data d \<Rightarrow>
          (int (length (take BUFFER_SIZE d)),
           take BUFFER_SIZE d @ replicate (BUFFER_SIZE - length d) NUL))"

text \<open>
  \<open>string(buffer)\<close>: the bytes before the first zero byte. A buffer without a zero byte
  is read past its end, which is undefined: \<open>None\<close>.
\<close>

definition string_of_buffer :: "string \<Rightarrow> string option" where
  "string_of_buffer buf =
     (if NUL \<in> set buf then Some (takeWhile (\<lambda>c. c \<noteq> NUL) buf) else None)"

record tm =
  tm_hour :: nat
  tm_min :: nat
  tm_sec :: nat

text \<open>The decimal digit \<open>d\<close> (below ten) as a character.\<close>

definition digit :: "nat \<Rightarrow> char" where
  "digit d = ''0123456789'' ! d"

text \<open>Modelled from the C library: the conversions \<open>%H\<close>, \<open>%M\<close> and \<open>%S\<close> of
  \<open>strftime\<close> print a field as two decimal digits.\<close>

definition two_digits :: "nat \<Rightarrow> string" where
  "two_digits n = [digit (n div 10 mod 10), digit (n mod 10)]"

text \<open>\<open>nowTimestamp\<close>, from the broken-down local time that \<open>localtime_r\<close> stored.\<close>

definition nowTimestamp :: "tm \<Rightarrow> string" where
  "nowTimestamp t =
     two_digits (tm_hour t) @ '':'' @ two_digits (tm_min t) @ '':'' @ two_digits (tm_sec t)"

subsection \<open>The server state\<close>

record ClientInfo =
  socket :: int
  name :: string
  ip :: string
  room :: string

record ChatServer =
  clients :: "ClientInfo list"
  room_history :: "string \<rightharpoonup> string list"
  io :: "event list"

definition MAX_HISTORY :: nat where
  "MAX_HISTORY = 50"

subsection \<open>Room history\<close>

text \<open>
  \<open>room_history[rm]\<close> on an \<open>unordered_map\<close>: the stored vector, a fresh empty one when the
  key is absent.
\<close>

definition history_at :: "(string \<rightharpoonup> string list) \<Rightarrow> string \<Rightarrow> string list" where
  "history_at h rm = (case h rm of None \<Rightarrow> [] | Some msgs \<Rightarrow> msgs)"

definition addToHistory :: "string \<Rightarrow> string \<Rightarrow> (string \<rightharpoonup> string list) \<Rightarrow> (string \<rightharpoonup> string list)" where
  "addToHistory rm msg h =
     (let history = history_at h rm;
          history' = (if length history \<ge> MAX_HISTORY then tl history else history)
      in h(rm \<mapsto> history' @ [msg]))"

text \<open>The loop of \<open>sendRoomHistory\<close>: each message, then a newline; results are ignored.\<close>

fun send_history :: "network \<Rightarrow> int \<Rightarrow> string list \<Rightarrow> event list \<Rightarrow> event list" where
  "send_history net sk [] tr = tr"
| "send_history net sk (msg # msgs) tr =
     (let tr1 = snd (send net sk (c_str msg) (length msg) tr);
          tr2 = snd (send net sk (c_str [newline]) 1 tr1)
      in send_history net sk msgs tr2)"

definition sendRoomHistory :: "network \<Rightarrow> int \<Rightarrow> string \<Rightarrow> ChatServer \<Rightarrow> ChatServer" where
  "sendRoomHistory net clientSocket rm st =
     (case room_history st rm of
        None \<Rightarrow> st
      | Some msgs \<Rightarrow> st\<lparr>io := send_history net clientSocket msgs (io st)\<rparr>)"

subsection \<open>Registry and broadcast\<close>

text \<open>The first loop of \<open>broadcastMessage\<close>, run under the lock: the target list.\<close>

definition broadcast_targets :: "ClientInfo list \<Rightarrow> string \<Rightarrow> int \<Rightarrow> int list" where
  "broadcast_targets cs rm senderSocket =
     map socket (filter (\<lambda>c. room c = rm \<and> socket c \<noteq> senderSocket) cs)"

text \<open>
  The second loop of \<open>broadcastMessage\<close>: the message to each target; when that \<open>send\<close>
  returned a negative value the newline is skipped and the loop goes on with the next target.
\<close>

fun deliver :: "network \<Rightarrow> string \<Rightarrow> int list \<Rightarrow> event list \<Rightarrow> event list" where
  "deliver net msg [] tr = tr"
| "deliver net msg (sk # targets) tr =
     (let (sent, tr1) = send net sk (c_str msg) (length msg) tr
      in if sent < 0 then deliver net msg targets tr1
         else deliver net msg targets (snd (send net sk (c_str [newline]) 1 tr1)))"

definition broadcastMessage :: "network \<Rightarrow> string \<Rightarrow> int \<Rightarrow> string \<Rightarrow> ChatServer \<Rightarrow> ChatServer" where
  "broadcastMessage net msg senderSocket rm st =
     (let targets = broadcast_targets (clients st) rm senderSocket
      in st\<lparr>io := deliver net msg targets (io st)\<rparr>)"

definition removeClient :: "int \<Rightarrow> ClientInfo list \<Rightarrow> ClientInfo list" where
  "removeClient sk cs = filter (\<lambda>c. \<not> (socket c = sk)) cs"

text \<open>\<open>clients.push_back({clientSocket, name, ip, room})\<close> of \<open>handleClient\<close>.\<close>

definition register_client :: "ClientInfo \<Rightarrow> ClientInfo list \<Rightarrow> ClientInfo list" where
  "register_client c cs = cs @ [c]"

text \<open>\<open>stop\<close>, as far as the registry goes: every client socket is closed, the registry
  is emptied.\<close>

definition stop :: "ChatServer \<Rightarrow> ChatServer" where
  "stop st = st\<lparr>io := io st @ map (\<lambda>c. Close (socket c)) (clients st), clients := []\<rparr>"

subsection \<open>The session handler\<close>

text \<open>
  \<open>handleClient\<close> up to the relay loop (the prompt, the name, the registration, the join
  confirmation, the history replay and the join announcement). The value \<open>recv\<close>
  returns is not looked at. The result is the local variable \<open>name\<close> and the new state.
\<close>

definition greet :: "network \<Rightarrow> int \<Rightarrow> string \<Rightarrow> recv_outcome \<Rightarrow> ChatServer \<Rightarrow> (string \<times> ChatServer) option" where
  "greet net clientSocket addr r st =
     (let tr1 = snd (send net clientSocket (c_str ''Enter your name: '') 17 (io st));
          (bytes, buffer) = recv r
      in case string_of_buffer buffer of
           None \<Rightarrow> None
         | Some s \<Rightarrow>
             (let nm = erase_newlines s;
                  rm = ''general'';
                  st1 = st\<lparr>io := tr1,
                          clients := register_client
                            \<lparr>socket = clientSocket, name = nm, ip = addr, room = rm\<rparr> (clients st)\<rparr>;
                  st2 = st1\<lparr>io := snd (send net clientSocket
                            (c_str (''Joined room: '' @ rm @ [newline])) (length rm + 15) (io st1))\<rparr>;
                  st3 = sendRoomHistory net clientSocket rm st2;
                  st4 = broadcastMessage net (nm @ '' joined the chat'') clientSocket rm st3
              in Some (nm, st4)))"

text \<open>The text the relay loop stores and broadcasts.\<close>

definition fullMessage :: "tm \<Rightarrow> string \<Rightarrow> string \<Rightarrow> string" where
  "fullMessage t nm message = ''['' @ nowTimestamp t @ ''] '' @ nm @ '': '' @ message"

text \<open>
  One pass through the body of the relay loop. \<open>Break\<close> is the \<open>break\<close> on
  \<open>bytes <= 0\<close>; \<open>None\<close> is the read past a buffer that \<open>recv\<close> filled completely.
\<close>

datatype 'a loop_step = Break | Continue 'a

definition relay_body :: "network \<Rightarrow> int \<Rightarrow> string \<Rightarrow> string \<Rightarrow> recv_outcome \<Rightarrow> tm \<Rightarrow> ChatServer \<Rightarrow> ChatServer loop_step option" where
  "relay_body net clientSocket nm rm r t st =
     (let (bytes, buffer) = recv r
      in if bytes \<le> 0 then Some Break
         else case string_of_buffer buffer of
                None \<Rightarrow> None
              | Some s \<Rightarrow>
                  (let message = erase_newlines s;
                       full = fullMessage t nm message;
                       st1 = st\<lparr>room_history := addToHistory rm full (room_history st)\<rparr>
                   in Some (Continue (broadcastMessage net full clientSocket rm st1))))"

text \<open>\<open>removeClient(clientSocket); close(clientSocket)\<close> at the end of \<open>handleClient\<close>.\<close>

definition closing :: "int \<Rightarrow> ChatServer \<Rightarrow> ChatServer" where
  "closing clientSocket st =
     st\<lparr>clients := removeClient clientSocket (clients st),
        io := io st @ [Close clientSocket]\<rparr>"

text \<open>
  The relay loop of one handler, run on the inputs it meets: for each test of the loop
  condition the value of \<open>running && serverRunning\<close> (both flags are written by other
  threads and by the signal handler), what \<open>recv\<close> then delivers, and the local time.
  \<open>Blocked\<close>: the inputs are used up and the handler waits in \<open>recv\<close>.
\<close>

datatype outcome = Finished ChatServer | Blocked ChatServer

fun relay_loop :: "network \<Rightarrow> int \<Rightarrow> string \<Rightarrow> string \<Rightarrow> (bool \<times> recv_outcome \<times> tm) list \<Rightarrow> ChatServer \<Rightarrow> outcome option" where
  "relay_loop net clientSocket nm rm [] st = Some (Blocked st)"
| "relay_loop net clientSocket nm rm ((flags, r, t) # inputs) st =
     (if \<not> flags then Some (Finished (closing clientSocket st))
      else case relay_body net clientSocket nm rm r t st of
             None \<Rightarrow> None
           | Some Break \<Rightarrow> Some (Finished (closing clientSocket st))
           | Some (Continue st') \<Rightarrow> relay_loop net clientSocket nm rm inputs st')"

definition handleClient :: "network \<Rightarrow> int \<Rightarrow> string \<Rightarrow> recv_outcome \<Rightarrow> (bool \<times> recv_outcome \<times> tm) list \<Rightarrow> ChatServer \<Rightarrow> outcome option" where
  "handleClient net clientSocket addr r inputs st =
     (case greet net clientSocket addr r st of
        None \<Rightarrow> None
      | Some (nm, st') \<Rightarrow> relay_loop net clientSocket nm ''general'' inputs st')"

subsection \<open>Several handlers\<close>

text \<open>
  \<open>acceptClients\<close> starts one detached thread per accepted connection, each running
  \<open>handleClient\<close>. The threads share \<open>clients\<close> and \<open>room_history\<close>. Every access to
  \<open>clients\<close> is made under \<open>clientsMutex\<close>; the accesses to \<open>room_history\<close> in
  \<open>addToHistory\<close> and \<open>sendRoomHistory\<close> take no lock. The model below interleaves the
  threads statement by statement: what runs under the lock is one step, and every
  statement that reads or writes \<open>room_history\<close> is a step of its own.

  A handler is at one of the following points of \<open>handleClient\<close>; the point names the
  statement it executes next and holds the local variables that statement needs.
\<close>

datatype pc =
    Greeting                       \<comment> \<open>the prompt, \<open>recv\<close>, the name\<close>
  | Registering                    \<comment> \<open>\<open>clients.push_back\<close>, under the lock\<close>
  | Confirming                     \<comment> \<open>the join confirmation\<close>
  | Replay_count                   \<comment> \<open>\<open>room_history.count(room)\<close>\<close>
  | Replay_range                   \<comment> \<open>\<open>begin()\<close> and \<open>end()\<close> of \<open>room_history[room]\<close>\<close>
  | Replaying nat nat nat          \<comment> \<open>the loop of \<open>sendRoomHistory\<close>: position, end, modification count of the vector when the range was taken\<close>
  | Announce_targets               \<comment> \<open>first loop of \<open>broadcastMessage\<close>, under the lock\<close>
  | Announce_deliver "int list"    \<comment> \<open>second loop of \<open>broadcastMessage\<close>: the targets left\<close>
  | Loop_top                       \<comment> \<open>the loop test, \<open>recv\<close>, the formatted message\<close>
  | Add_lookup string              \<comment> \<open>\<open>auto &history = room_history[room]\<close>\<close>
  | Add_test string                \<comment> \<open>\<open>history.size() >= MAX_HISTORY\<close>\<close>
  | Add_erase string               \<comment> \<open>\<open>history.erase(history.begin())\<close>\<close>
  | Add_push string                \<comment> \<open>\<open>history.push_back(msg)\<close>\<close>
  | Relay_targets string           \<comment> \<open>first loop of \<open>broadcastMessage\<close>, under the lock\<close>
  | Relay_deliver string "int list"    \<comment> \<open>second loop of \<open>broadcastMessage\<close>: the targets left\<close>
  | Removing                       \<comment> \<open>\<open>removeClient\<close>, under the lock\<close>
  | Closing                        \<comment> \<open>\<open>close(clientSocket)\<close>; the thread ends\<close>

record handler =
  peer :: string
  nick :: string
  point :: pc

text \<open>
  In a handler, \<open>peer\<close> is the parameter \<open>ip\<close> and \<open>nick\<close> the local variable \<open>name\<close>.

  The state of the program: the server object, the live handlers by their socket (a socket
  belongs to one handler from \<open>accept\<close> to \<open>close\<close>), whether the accept loop still runs,
  and for each room the number of times its vector has been modified. \<open>erase\<close> and
  \<open>push_back\<close> invalidate the iterators a replay holds (the end iterator in every case),
  so a replay that goes on after a modification is undefined.
\<close>

record system =
  server :: ChatServer
  handlers :: "int \<rightharpoonup> handler"
  accepting :: bool
  version :: "string \<Rightarrow> nat"

text \<open>
  A step is not enabled (\<open>Disabled\<close>), is undefined in C++ (\<open>Undefined_behaviour\<close>: a
  \<open>std::string\<close> built from an unterminated buffer, \<open>erase\<close> on an empty vector, a replay
  with invalidated iterators), or leads to the next state.
\<close>

datatype 'a result = Disabled | Undefined_behaviour | Next (the_next: 'a)

definition move :: "int \<Rightarrow> handler \<Rightarrow> pc \<Rightarrow> system \<Rightarrow> system" where
  "move sk h p s = s\<lparr>handlers := (handlers s)(sk \<mapsto> h\<lparr>point := p\<rparr>)\<rparr>"

text \<open>
  One statement of the handler with socket \<open>clientSocket\<close>. The inputs \<open>flags\<close> (the value
  of \<open>running && serverRunning\<close>), \<open>r\<close> (what \<open>recv\<close> delivers) and \<open>t\<close> (the local
  time) are read by the steps \<open>Greeting\<close> and \<open>Loop_top\<close> only.
\<close>

definition handler_step :: "network \<Rightarrow> int \<Rightarrow> handler \<Rightarrow> bool \<Rightarrow> recv_outcome \<Rightarrow> tm \<Rightarrow> system \<Rightarrow> system result" where
  "handler_step net clientSocket h flags r t s =
     (let sv = server s; rm = ''general'' in
      case point h of
        Greeting \<Rightarrow>
          (let tr1 = snd (send net clientSocket (c_str ''Enter your name: '') 17 (io sv));
               (bytes, buffer) = recv r
           in case string_of_buffer buffer of
                None \<Rightarrow> Undefined_behaviour
              | Some b \<Rightarrow>
                  Next (move clientSocket (h\<lparr>nick := erase_newlines b\<rparr>) Registering
                          (s\<lparr>server := sv\<lparr>io := tr1\<rparr>\<rparr>)))
      | Registering \<Rightarrow>
          Next (move clientSocket h Confirming
                  (s\<lparr>server := sv\<lparr>clients := register_client
                        \<lparr>socket = clientSocket, name = nick h, ip = peer h, room = rm\<rparr> (clients sv)\<rparr>\<rparr>))
      | Confirming \<Rightarrow>
          Next (move clientSocket h Replay_count
                  (s\<lparr>server := sv\<lparr>io := snd (send net clientSocket
                        (c_str (''Joined room: '' @ rm @ [newline])) (length rm + 15) (io sv))\<rparr>\<rparr>))
      | Replay_count \<Rightarrow>
          (case room_history sv rm of
             None \<Rightarrow> Next (move clientSocket h Announce_targets s)
           | Some v \<Rightarrow> Next (move clientSocket h Replay_range s))
      | Replay_range \<Rightarrow>
          Next (move clientSocket h
                  (Replaying 0 (length (history_at (room_history sv) rm)) (version s rm)) s)
      | Replaying i n ver \<Rightarrow>
          (if version s rm \<noteq> ver then Undefined_behaviour
           else if i = n then Next (move clientSocket h Announce_targets s)
           else case drop i (history_at (room_history sv) rm) of
                  [] \<Rightarrow> Undefined_behaviour
                | msg # rest \<Rightarrow>
                    Next (move clientSocket h (Replaying (Suc i) n ver)
                            (s\<lparr>server := sv\<lparr>io := send_history net clientSocket [msg] (io sv)\<rparr>\<rparr>)))
      | Announce_targets \<Rightarrow>
          Next (move clientSocket h
                  (Announce_deliver (broadcast_targets (clients sv) rm clientSocket)) s)
      | Announce_deliver targets \<Rightarrow>
          (case targets of
             [] \<Rightarrow> Next (move clientSocket h Loop_top s)
           | sk # rest \<Rightarrow>
               Next (move clientSocket h (Announce_deliver rest)
                       (s\<lparr>server := sv\<lparr>io := deliver net (nick h @ '' joined the chat'') [sk] (io sv)\<rparr>\<rparr>)))
      | Loop_top \<Rightarrow>
          (if \<not> flags then Next (move clientSocket h Removing s)
           else let (bytes, buffer) = recv r
                in if bytes \<le> 0 then Next (move clientSocket h Removing s)
                   else case string_of_buffer buffer of
                          None \<Rightarrow> Undefined_behaviour
                        | Some b \<Rightarrow>
                            Next (move clientSocket h
                                    (Add_lookup (fullMessage t (nick h) (erase_newlines b))) s))
      | Add_lookup full \<Rightarrow>
          Next (move clientSocket h (Add_test full)
                  (s\<lparr>server := sv\<lparr>room_history :=
                        (case room_history sv rm of
                           None \<Rightarrow> (room_history sv)(rm \<mapsto> [])
                         | Some v \<Rightarrow> room_history sv)\<rparr>\<rparr>))
      | Add_test full \<Rightarrow>
          (if length (history_at (room_history sv) rm) \<ge> MAX_HISTORY
           then Next (move clientSocket h (Add_erase full) s)
           else Next (move clientSocket h (Add_push full) s))
      | Add_erase full \<Rightarrow>
          (if history_at (room_history sv) rm = [] then Undefined_behaviour
           else Next (move clientSocket h (Add_push full)
                        (s\<lparr>server := sv\<lparr>room_history :=
                              (room_history sv)(rm \<mapsto> tl (history_at (room_history sv) rm))\<rparr>,
                           version := (version s)(rm := Suc (version s rm))\<rparr>)))
      | Add_push full \<Rightarrow>
          Next (move clientSocket h (Relay_targets full)
                  (s\<lparr>server := sv\<lparr>room_history :=
                        (room_history sv)(rm \<mapsto> history_at (room_history sv) rm @ [full])\<rparr>,
                     version := (version s)(rm := Suc (version s rm))\<rparr>))
      | Relay_targets full \<Rightarrow>
          Next (move clientSocket h
                  (Relay_deliver full (broadcast_targets (clients sv) rm clientSocket)) s)
      | Relay_deliver full targets \<Rightarrow>
          (case targets of
             [] \<Rightarrow> Next (move clientSocket h Loop_top s)
           | sk # rest \<Rightarrow>
               Next (move clientSocket h (Relay_deliver full rest)
                       (s\<lparr>server := sv\<lparr>io := deliver net full [sk] (io sv)\<rparr>\<rparr>)))
      | Removing \<Rightarrow>
          Next (move clientSocket h Closing
                  (s\<lparr>server := sv\<lparr>clients := removeClient clientSocket (clients sv)\<rparr>\<rparr>))
      | Closing \<Rightarrow>
          Next (s\<lparr>server := sv\<lparr>io := io sv @ [Close clientSocket]\<rparr>,
                  handlers := (handlers s)(clientSocket := None)\<rparr>))"

text \<open>
  The moves of the whole program. \<open>accept\<close> returns a descriptor that is not open, so
  not the socket of a live handler, and only while the accept loop runs. \<open>stop\<close> is
  called by the destructor, after the accept loop has ended.
\<close>

datatype action =
    Accept int string
  | Run int bool recv_outcome tm
  | Stop

definition step :: "network \<Rightarrow> action \<Rightarrow> system \<Rightarrow> system result" where
  "step net a s =
     (case a of
        Accept sk addr \<Rightarrow>
          if accepting s \<and> handlers s sk = None
          then Next (s\<lparr>handlers := (handlers s)(sk \<mapsto> \<lparr>peer = addr, nick = [], point = Greeting\<rparr>)\<rparr>)
          else Disabled
      | Run sk flags r t \<Rightarrow>
          (case handlers s sk of
             None \<Rightarrow> Disabled
           | Some h \<Rightarrow> handler_step net sk h flags r t s)
      | Stop \<Rightarrow> Next (s\<lparr>server := stop (server s), accepting := False\<rparr>))"

fun exec :: "network \<Rightarrow> action list \<Rightarrow> system \<Rightarrow> system result" where
  "exec net [] s = Next s"
| "exec net (a # as) s =
     (case step net a s of
        Disabled \<Rightarrow> Disabled
      | Undefined_behaviour \<Rightarrow> Undefined_behaviour
      | Next s' \<Rightarrow> exec net as s')"

definition initial :: ChatServer where
  "initial = \<lparr>clients = [], room_history = Map.empty, io = []\<rparr>"

definition boot :: system where
  "boot = \<lparr>server = initial, handlers = Map.empty, accepting = True, version = (\<lambda>rm. 0)\<rparr>"

subsection \<open>Observations and runs used in the statements\<close>

text \<open>The sockets of the \<open>send\<close> calls of a trace, the byte strings handed to them, and
  the sockets to which exactly the bytes \<open>msg\<close> were handed, all in program order.\<close>

definition sent_to :: "event list \<Rightarrow> int list" where
  "sent_to tr = concat (map (\<lambda>e. case e of Send sk b r \<Rightarrow> [sk] | Close sk \<Rightarrow> []) tr)"

definition payloads :: "event list \<Rightarrow> string list" where
  "payloads tr = concat (map (\<lambda>e. case e of Send sk b r \<Rightarrow> [b] | Close sk \<Rightarrow> []) tr)"

definition attempts :: "string \<Rightarrow> event list \<Rightarrow> int list" where
  "attempts msg tr =
     concat (map (\<lambda>e. case e of Send sk b r \<Rightarrow> if b = msg then [sk] else [] | Close sk \<Rightarrow> []) tr)"

text \<open>A sequence of calls \<open>addToHistory(rm, msg)\<close>, and the messages among them posted
  to one room.\<close>

fun add_all :: "(string \<times> string) list \<Rightarrow> (string \<rightharpoonup> string list) \<Rightarrow> (string \<rightharpoonup> string list)" where
  "add_all [] h = h"
| "add_all ((rm, msg) # rest) h = add_all rest (addToHistory rm msg h)"

definition posted_to :: "string \<Rightarrow> (string \<times> string) list \<Rightarrow> string list" where
  "posted_to rm ps = map snd (filter (\<lambda>p. fst p = rm) ps)"

definition keep_last :: "nat \<Rightarrow> 'a list \<Rightarrow> 'a list" where
  "keep_last n xs = drop (length xs - n) xs"

text \<open>The sockets accepted in a run; the history of the room general after a run.\<close>

definition accepted :: "action list \<Rightarrow> int list" where
  "accepted as = concat (map (\<lambda>a. case a of Accept sk addr \<Rightarrow> [sk] | _ \<Rightarrow> []) as)"

definition stored :: "system result \<Rightarrow> string list option" where
  "stored res =
     (case res of Next s \<Rightarrow> Some (history_at (room_history (server s)) ''general'') | _ \<Rightarrow> None)"

text \<open>
  The registry is in order when no socket is registered twice and every registered
  socket belongs to a live handler that is past its registration and before its
  \<open>close\<close>. A socket is gone when it is not registered and no handler is about to
  register it.
\<close>

definition unregistered_point :: "pc \<Rightarrow> bool" where
  "unregistered_point p = (p = Greeting \<or> p = Registering \<or> p = Closing)"


definition may_register :: "int \<Rightarrow> system \<Rightarrow> bool" where
  "may_register sk s =
     (case handlers s sk of
        None \<Rightarrow> False
      | Some h \<Rightarrow> point h = Greeting \<or> point h = Registering)"

definition gone :: "int \<Rightarrow> system \<Rightarrow> bool" where
  "gone sk s = (sk \<notin> socket ` set (clients (server s)) \<and> \<not> may_register sk s)"

text \<open>The spec's wording for the text of a message: the trailing newline is trimmed.\<close>

definition spec_trim_trailing_newline :: "string \<Rightarrow> string" where
  "spec_trim_trailing_newline s = (if s \<noteq> [] \<and> last s = newline then butlast s else s)"

subsection \<open>Sample environments and sessions\<close>

text \<open>A network on which every \<open>send\<close> succeeds, and one on which every \<open>send\<close> to the
  socket \<open>d\<close> fails.\<close>

definition reliable :: network where
  "reliable tr sk bytes = int (length bytes)"

definition dead_peer :: "int \<Rightarrow> network" where
  "dead_peer d tr sk bytes = (if sk = d then - 1 else int (length bytes))"

definition alice :: ClientInfo where
  "alice = \<lparr>socket = 4, name = ''A'', ip = ''10.0.0.1'', room = ''general''\<rparr>"

definition bob :: ClientInfo where
  "bob = \<lparr>socket = 5, name = ''B'', ip = ''10.0.0.2'', room = ''general''\<rparr>"

definition carol :: ClientInfo where
  "carol = \<lparr>socket = 6, name = ''C'', ip = ''10.0.0.3'', room = ''lobby''\<rparr>"

definition noon :: tm where
  "noon = \<lparr>tm_hour = 12, tm_min = 0, tm_sec = 7\<rparr>"

text \<open>A step that reads no input, and the step in which \<open>recv\<close> delivers one line.\<close>

definition go :: "int \<Rightarrow> action" where
  "go sk = Run sk True Recv_eof noon"

definition say :: "int \<Rightarrow> string \<Rightarrow> action" where
  "say sk line = Run sk True (Recv_data (line @ [newline])) noon"

text \<open>
  A joins and sends \<open>hi\<close>; C is accepted and has taken the range of its replay when A
  stores the message \<open>yo\<close>.
\<close>

definition join_during_relay :: "action list" where
  "join_during_relay =
     [Accept 4 ''10.0.0.1'', say 4 ''A'', go 4, go 4, go 4, go 4, go 4,
      say 4 ''hi'', go 4, go 4, go 4, go 4, go 4,
      Accept 6 ''10.0.0.3'', say 6 ''C'', go 6, go 6, go 6, go 6,
      say 4 ''yo'', go 4, go 4, go 4]"

text \<open>
  A and B join; A sends the line \<open>hi\<close> and its handler runs one pass of the relay loop;
  \<open>fill_room\<close> is the two joins followed by 50 such passes. Then A and B each receive a
  line: A tests the size and erases, B tests the size and appends, A appends.
\<close>

definition two_join :: "action list" where
  "two_join =
     [Accept 4 ''10.0.0.1'', say 4 ''A'', go 4, go 4, go 4, go 4, go 4,
      Accept 5 ''10.0.0.2'', say 5 ''B'', go 5, go 5, go 5, go 5, go 5, go 5]"

definition pass :: "action list" where
  "pass = [say 4 ''hi'', go 4, go 4, go 4, go 4, go 4, go 4]"

definition fill_room :: "action list" where
  "fill_room = two_join @ pass @ concat (replicate 49 pass)"

definition two_appends_race :: "action list" where
  "two_appends_race =
     [say 4 ''x'', go 4, go 4, go 4,
      say 5 ''y'', go 5, go 5, go 5,
      go 4]"

text \<open>
  A and B in the relay loop, \<open>k\<close> messages stored after \<open>k\<close> modifications of the
  vector, with any trace.
\<close>

definition packed :: "nat \<Rightarrow> event list \<Rightarrow> system" where
  "packed k tr =
     \<lparr>server = \<lparr>clients = [alice, bob],
                 room_history = [''general'' \<mapsto> replicate k ''[12:00:07] A: hi''],
                 io = tr\<rparr>,
      handlers = [5 \<mapsto> \<lparr>peer = ''10.0.0.2'', nick = ''B'', point = Loop_top\<rparr>,
                  4 \<mapsto> \<lparr>peer = ''10.0.0.1'', nick = ''A'', point = Loop_top\<rparr>],
      accepting = True,
      version = (\<lambda>rm. 0)(''general'' := k)\<rparr>"

text \<open>A is about to call \<open>removeClient\<close>, B is in the relay loop.\<close>

definition leaving :: system where
  "leaving =
     \<lparr>server = \<lparr>clients = [alice, bob], room_history = Map.empty, io = []\<rparr>,
      handlers = [4 \<mapsto> \<lparr>peer = ''10.0.0.1'', nick = ''A'', point = Removing\<rparr>,
                  5 \<mapsto> \<lparr>peer = ''10.0.0.2'', nick = ''B'', point = Loop_top\<rparr>],
      accepting = True,
      version = (\<lambda>rm. 0)\<rparr>"

section \<open>Basic facts\<close>

subsection \<open>send, recv and buffers\<close>

lemma send_snd: "snd (send net sk p n tr) = tr @ [Send sk (take n p) (net tr sk (take n p))]"
  by (simp add: send_def Let_def)

lemma send_fst: "fst (send net sk p n tr) = net tr sk (take n p)"
  by (simp add: send_def Let_def)

lemma take_c_str [simp]: "take (length msg) (c_str msg) = msg"
  by (simp add: c_str_def)

lemma take_c_str_newline [simp]: "take (Suc 0) (c_str [newline]) = [newline]"
  by (simp add: c_str_def)

lemma deliver_Cons:
  "deliver net msg (sk # targets) tr =
     (if net tr sk msg < 0 then deliver net msg targets (tr @ [Send sk msg (net tr sk msg)])
      else deliver net msg targets
             (tr @ [Send sk msg (net tr sk msg),
                    Send sk [newline] (net (tr @ [Send sk msg (net tr sk msg)]) sk [newline])]))"
  by (simp add: send_def Let_def)

lemma recv_eof_buffer: "string_of_buffer (snd (recv Recv_eof)) = Some []"
  by (simp add: recv_def string_of_buffer_def BUFFER_SIZE_def)

lemma recv_error_buffer: "string_of_buffer (snd (recv Recv_error)) = Some []"
  by (simp add: recv_def string_of_buffer_def BUFFER_SIZE_def)

lemma recv_data_buffer:
  assumes "length d < BUFFER_SIZE"
  shows "string_of_buffer (snd (recv (Recv_data d))) = Some (takeWhile (\<lambda>c. c \<noteq> NUL) d)"
proof -
  define k where "k = BUFFER_SIZE - length d"
  have k: "0 < k" using assms by (simp add: k_def)
  have buf: "snd (recv (Recv_data d)) = d @ replicate k NUL"
    using assms by (simp add: recv_def k_def)
  have tw: "takeWhile (\<lambda>c. c \<noteq> NUL) (d @ replicate k NUL) = takeWhile (\<lambda>c. c \<noteq> NUL) d"
  proof (cases "NUL \<in> set d")
    case True
    then show ?thesis by simp
  next
    case False
    then have all: "\<forall>c\<in>set d. c \<noteq> NUL" by auto
    then have "takeWhile (\<lambda>c. c \<noteq> NUL) (d @ replicate k NUL) = d @ takeWhile (\<lambda>c. c \<noteq> NUL) (replicate k NUL)"
      by simp
    also have "takeWhile (\<lambda>c. c \<noteq> NUL) (replicate k NUL) = []"
      using k by (cases k) simp_all
    finally have "takeWhile (\<lambda>c. c \<noteq> NUL) (d @ replicate k NUL) = d" by simp
    moreover have "takeWhile (\<lambda>c. c \<noteq> NUL) d = d"
      using all by simp
    ultimately show ?thesis by (simp only:)
  qed
  show ?thesis using k by (simp add: buf string_of_buffer_def tw)
qed

lemma recv_data_full:
  assumes "BUFFER_SIZE \<le> length d" "NUL \<notin> set (take BUFFER_SIZE d)"
  shows "string_of_buffer (snd (recv (Recv_data d))) = None"
  using assms by (simp add: recv_def string_of_buffer_def)

lemma recv_fst:
  "fst (recv Recv_eof) = 0" "fst (recv Recv_error) = - 1"
  "fst (recv (Recv_data d)) = int (min (length d) BUFFER_SIZE)"
  by (simp_all add: recv_def)

subsection \<open>Broadcast\<close>

lemma set_broadcast_targets:
  "set (broadcast_targets cs rm s) = {socket c |c. c \<in> set cs \<and> room c = rm \<and> socket c \<noteq> s}"
  by (auto simp: broadcast_targets_def)

lemma targets_subset: "set (broadcast_targets cs rm s) \<subseteq> socket ` set cs"
  by (auto simp: broadcast_targets_def)

lemma deliver_extends:
  "\<exists>new. deliver net msg targets tr = tr @ new \<and> set (sent_to new) = set targets
         \<and> (msg \<noteq> [newline] \<longrightarrow> attempts msg new = targets)"
proof (induction targets arbitrary: tr)
  case Nil
  show ?case by (simp add: sent_to_def attempts_def)
next
  case (Cons sk targets)
  define r where "r = net tr sk msg"
  define tr1 where "tr1 = tr @ [Send sk msg r]"
  define tr2 where "tr2 = tr1 @ [Send sk [newline] (net tr1 sk [newline])]"
  show ?case
  proof (cases "r < 0")
    case True
    from Cons.IH[of tr1] obtain new where n: "deliver net msg targets tr1 = tr1 @ new"
      "set (sent_to new) = set targets" "msg \<noteq> [newline] \<longrightarrow> attempts msg new = targets" by blast
    have "deliver net msg (sk # targets) tr = tr @ (Send sk msg r # new)"
      using True n(1) by (simp add: deliver_Cons r_def tr1_def del: deliver.simps)
    moreover have "set (sent_to (Send sk msg r # new)) = set (sk # targets)"
      using n(2) by (simp add: sent_to_def)
    moreover have "msg \<noteq> [newline] \<longrightarrow> attempts msg (Send sk msg r # new) = sk # targets"
      using n(3) by (simp add: attempts_def)
    ultimately show ?thesis by blast
  next
    case False
    from Cons.IH[of tr2] obtain new where n: "deliver net msg targets tr2 = tr2 @ new"
      "set (sent_to new) = set targets" "msg \<noteq> [newline] \<longrightarrow> attempts msg new = targets" by blast
    let ?new = "Send sk msg r # Send sk [newline] (net tr1 sk [newline]) # new"
    have "deliver net msg (sk # targets) tr = tr @ ?new"
      using False n(1) by (simp add: deliver_Cons r_def tr1_def tr2_def del: deliver.simps)
    moreover have "set (sent_to ?new) = set (sk # targets)"
      using n(2) by (simp add: sent_to_def)
    moreover have "msg \<noteq> [newline] \<longrightarrow> attempts msg ?new = sk # targets"
      using n(3) by (auto simp add: attempts_def)
    ultimately show ?thesis by blast
  qed
qed

lemma broadcastMessage_clients [simp]: "clients (broadcastMessage net msg s rm st) = clients st"
  by (simp add: broadcastMessage_def)

lemma broadcastMessage_history [simp]: "room_history (broadcastMessage net msg s rm st) = room_history st"
  by (simp add: broadcastMessage_def)

lemma broadcastMessage_io: "io (broadcastMessage net msg s rm st) = deliver net msg (broadcast_targets (clients st) rm s) (io st)"
  by (simp add: broadcastMessage_def)

lemma broadcastMessage_extends:
  "\<exists>new. io (broadcastMessage net msg s rm st) = io st @ new
     \<and> set (sent_to new) = set (broadcast_targets (clients st) rm s)
     \<and> (msg \<noteq> [newline] \<longrightarrow> attempts msg new = broadcast_targets (clients st) rm s)"
  using deliver_extends[of net msg "broadcast_targets (clients st) rm s" "io st"]
  by (simp add: broadcastMessage_io)

subsection \<open>Registry\<close>

lemma removeClient_idem: "removeClient sk (removeClient sk cs) = removeClient sk cs"
  by (simp add: removeClient_def)

lemma removeClient_absent: "sk \<notin> socket ` set cs \<Longrightarrow> removeClient sk cs = cs"
  by (induction cs) (auto simp: removeClient_def)

lemma removeClient_not_target: "sk \<notin> set (broadcast_targets (removeClient sk cs) rm s)"
  by (auto simp: removeClient_def broadcast_targets_def)

subsection \<open>History\<close>

lemma keep_last_append: "keep_last n (keep_last n xs @ ys) = keep_last n (xs @ ys)"
proof -
  have "length xs - n \<le> length xs" by simp
  then have "drop (length xs - n) xs @ ys = drop (length xs - n) (xs @ ys)" by simp
  moreover have "length (drop (length xs - n) xs @ ys) - n + (length xs - n) = length (xs @ ys) - n"
    by simp
  ultimately show ?thesis by (simp add: keep_last_def add.commute)
qed

lemma history_at_addToHistory:
  assumes "length (history_at h R) \<le> MAX_HISTORY"
  shows "history_at (addToHistory rm msg h) R =
           keep_last MAX_HISTORY (history_at h R @ (if rm = R then [msg] else []))"
proof (cases "rm = R")
  case False
  then show ?thesis using assms by (simp add: addToHistory_def history_at_def keep_last_def Let_def)
next
  case True
  show ?thesis
  proof (cases "length (history_at h R) = MAX_HISTORY")
    case full: True
    then have "history_at h R \<noteq> []" by (auto simp: MAX_HISTORY_def)
    then have "tl (history_at h R) = drop 1 (history_at h R)" by (simp add: drop_Suc)
    then show ?thesis using True full
      by (simp add: addToHistory_def history_at_def keep_last_def Let_def MAX_HISTORY_def)
  next
    case False
    with assms have "length (history_at h R) < MAX_HISTORY" by simp
    then show ?thesis using True
      by (simp add: addToHistory_def history_at_def keep_last_def Let_def)
  qed
qed

lemma keep_last_short: "length xs \<le> n \<Longrightarrow> keep_last n xs = xs"
  by (simp add: keep_last_def)

lemma length_keep_last: "length (keep_last n xs) \<le> n"
  by (simp add: keep_last_def)

lemma history_at_add_all:
  "length (history_at h R) \<le> MAX_HISTORY \<Longrightarrow>
     history_at (add_all ps h) R = keep_last MAX_HISTORY (history_at h R @ posted_to R ps)"
proof (induction ps arbitrary: h)
  case Nil
  then show ?case by (simp add: posted_to_def keep_last_def)
next
  case (Cons p ps)
  obtain rm msg where p: "p = (rm, msg)" by (cases p)
  let ?h1 = "addToHistory rm msg h"
  have one: "history_at ?h1 R = keep_last MAX_HISTORY (history_at h R @ (if rm = R then [msg] else []))"
    using Cons.prems by (rule history_at_addToHistory)
  then have "length (history_at ?h1 R) \<le> MAX_HISTORY" by (simp only: length_keep_last)
  from Cons.IH[OF this] have "history_at (add_all ps ?h1) R =
      keep_last MAX_HISTORY (history_at ?h1 R @ posted_to R ps)" .
  also have "\<dots> = keep_last MAX_HISTORY ((history_at h R @ (if rm = R then [msg] else [])) @ posted_to R ps)"
    by (simp only: one keep_last_append)
  finally show ?case by (simp add: p posted_to_def)
qed

lemma addToHistory_keeps_excess:
  "MAX_HISTORY \<le> length (history_at h R) \<Longrightarrow>
     length (history_at (addToHistory R msg h) R) = length (history_at h R)"
  by (simp add: addToHistory_def history_at_def MAX_HISTORY_def)

lemma sendRoomHistory_clients [simp]: "clients (sendRoomHistory net sk rm st) = clients st"
  by (simp add: sendRoomHistory_def split: option.splits)

lemma sendRoomHistory_history [simp]: "room_history (sendRoomHistory net sk rm st) = room_history st"
  by (simp add: sendRoomHistory_def split: option.splits)

lemma send_history_payloads:
  "\<exists>new. send_history net sk msgs tr = tr @ new \<and> set (sent_to new) \<subseteq> {sk}
      \<and> payloads new = concat (map (\<lambda>m. [m, [newline]]) msgs)"
proof (induction msgs arbitrary: tr)
  case Nil show ?case by (simp add: sent_to_def payloads_def)
next
  case (Cons m msgs)
  define e1 where "e1 = Send sk m (net tr sk m)"
  define e2 where "e2 = Send sk [newline] (net (tr @ [e1]) sk [newline])"
  from Cons.IH[of "tr @ [e1, e2]"] obtain new where n: "send_history net sk msgs (tr @ [e1, e2]) = (tr @ [e1, e2]) @ new"
    "set (sent_to new) \<subseteq> {sk}" "payloads new = concat (map (\<lambda>m. [m, [newline]]) msgs)"
    by blast
  have "send_history net sk (m # msgs) tr = tr @ (e1 # e2 # new)"
    using n(1) by (simp add: send_snd e1_def e2_def)
  moreover have "set (sent_to (e1 # e2 # new)) \<subseteq> {sk}"
    using n(2) by (simp add: sent_to_def e1_def e2_def)
  moreover have "payloads (e1 # e2 # new) = concat (map (\<lambda>m. [m, [newline]]) (m # msgs))"
    using n(3) by (simp add: payloads_def e1_def e2_def)
  ultimately show ?case by blast
qed

lemma sendRoomHistory_payloads:
  "\<exists>new. io (sendRoomHistory net sk rm st) = io st @ new \<and> set (sent_to new) \<subseteq> {sk}
      \<and> payloads new = concat (map (\<lambda>m. [m, [newline]]) (history_at (room_history st) rm))"
proof (cases "room_history st rm")
  case None
  then show ?thesis by (simp add: sendRoomHistory_def sent_to_def payloads_def history_at_def)
next
  case (Some msgs)
  with send_history_payloads[of net sk msgs "io st"] show ?thesis
    by (simp add: sendRoomHistory_def history_at_def)
qed

subsection \<open>The handler\<close>

lemma greet_unfold:
  "greet net sk addr r st =
     (case string_of_buffer (snd (recv r)) of
        None \<Rightarrow> None
      | Some s \<Rightarrow>
          Some (erase_newlines s,
            broadcastMessage net (erase_newlines s @ '' joined the chat'') sk ''general''
              (sendRoomHistory net sk ''general''
                 (st\<lparr>clients := clients st @
                        [\<lparr>socket = sk, name = erase_newlines s, ip = addr, room = ''general''\<rparr>],
                     io := io st @
                        [Send sk ''Enter your name: '' (net (io st) sk ''Enter your name: ''),
                         Send sk (''Joined room: general'' @ [newline, NUL])
                           (net (io st @ [Send sk ''Enter your name: '' (net (io st) sk ''Enter your name: '')])
                              sk (''Joined room: general'' @ [newline, NUL]))]\<rparr>))))"
  by (simp add: greet_def Let_def send_def c_str_def register_client_def split: prod.splits option.splits)

lemma relay_body_unfold:
  "relay_body net sk nm rm r t st =
     (if fst (recv r) \<le> 0 then Some Break
      else case string_of_buffer (snd (recv r)) of
             None \<Rightarrow> None
           | Some s \<Rightarrow> Some (Continue (broadcastMessage net (fullMessage t nm (erase_newlines s)) sk rm
                 (st\<lparr>room_history := addToHistory rm (fullMessage t nm (erase_newlines s)) (room_history st)\<rparr>))))"
  by (simp add: relay_body_def Let_def split: prod.splits option.splits)

lemma greet_Some:
  assumes "greet net sk addr r st = Some (nm, st')"
  shows "string_of_buffer (snd (recv r)) = Some s \<Longrightarrow> nm = erase_newlines s"
    and "clients st' = clients st @ [\<lparr>socket = sk, name = nm, ip = addr, room = ''general''\<rparr>]"
    and "room_history st' = room_history st"
  using assms
  by (auto simp add: greet_def Let_def register_client_def split: prod.splits option.splits)

lemma greet_None: "(greet net sk addr r st = None) = (string_of_buffer (snd (recv r)) = None)"
  by (auto simp add: greet_def Let_def split: prod.splits option.splits)

lemma greet_trace:
  assumes "greet net sk addr r st = Some (nm, st')"
  shows "\<exists>r1 r2 replay new.
           io st' = io st @ [Send sk ''Enter your name: '' r1,
                             Send sk (''Joined room: general'' @ [newline, NUL]) r2] @ replay @ new
           \<and> set (sent_to replay) \<subseteq> {sk}
           \<and> payloads replay = concat (map (\<lambda>m. [m, [newline]]) (history_at (room_history st) ''general''))
           \<and> attempts (nm @ '' joined the chat'') new = broadcast_targets (clients st') ''general'' sk"
proof -
  from assms obtain s where s: "string_of_buffer (snd (recv r)) = Some s"
    by (auto simp: greet_unfold split: option.splits)
  define r1 where "r1 = net (io st) sk ''Enter your name: ''"
  define r2 where "r2 = net (io st @ [Send sk ''Enter your name: '' r1]) sk (''Joined room: general'' @ [newline, NUL])"
  define st1 where "st1 = st\<lparr>clients := clients st @
                        [\<lparr>socket = sk, name = erase_newlines s, ip = addr, room = ''general''\<rparr>],
                     io := io st @ [Send sk ''Enter your name: '' r1,
                                    Send sk (''Joined room: general'' @ [newline, NUL]) r2]\<rparr>"
  define st2 where "st2 = sendRoomHistory net sk ''general'' st1"
  define ann where "ann = erase_newlines s @ '' joined the chat''"
  have g: "greet net sk addr r st = Some (erase_newlines s, broadcastMessage net ann sk ''general'' st2)"
    by (simp add: greet_unfold s st2_def st1_def r1_def r2_def ann_def)
  with assms have nm: "nm = erase_newlines s" and st': "st' = broadcastMessage net ann sk ''general'' st2"
    by simp_all
  have h1: "room_history st1 = room_history st" by (simp add: st1_def)
  obtain replay where n1: "io st2 = io st1 @ replay" "set (sent_to replay) \<subseteq> {sk}"
      "payloads replay = concat (map (\<lambda>m. [m, [newline]]) (history_at (room_history st) ''general''))"
    unfolding st2_def using sendRoomHistory_payloads[of net sk "''general''" st1] h1 by auto
  have "length ann \<noteq> length [newline]" by (simp add: ann_def)
  then have "ann \<noteq> [newline]" by auto
  then obtain new where n2: "io st' = io st2 @ new"
      "attempts ann new = broadcast_targets (clients st2) ''general'' sk"
    unfolding st' using broadcastMessage_extends[of net ann sk "''general''" st2] by blast
  have "clients st' = clients st2" by (simp add: st')
  with n1 n2 have "io st' = io st @ [Send sk ''Enter your name: '' r1,
                             Send sk (''Joined room: general'' @ [newline, NUL]) r2] @ replay @ new"
     "attempts (nm @ '' joined the chat'') new = broadcast_targets (clients st') ''general'' sk"
    by (simp_all add: st1_def nm ann_def)
  with n1(2,3) show ?thesis by blast
qed

lemma history_at_addToHistory_last: "last (history_at (addToHistory rm msg h) rm) = msg"
  by (simp add: addToHistory_def history_at_def Let_def)

lemma closing_fields [simp]:
  "clients (closing sk st) = removeClient sk (clients st)"
  "room_history (closing sk st) = room_history st"
  by (simp_all add: closing_def)

lemma stop_fields [simp]:
  "clients (stop st) = []"
  "room_history (stop st) = room_history st"
  by (simp_all add: stop_def)

subsection \<open>Runs of several handlers\<close>

lemma handler_step_registry:
  assumes "handler_step net sk h f r t s = Next s'" "handlers s sk = Some h"
  shows "clients (server s') =
           (if point h = Registering
            then clients (server s) @ [\<lparr>socket = sk, name = nick h, ip = peer h, room = ''general''\<rparr>]
            else if point h = Removing then removeClient sk (clients (server s))
            else clients (server s))"
    and "\<And>x. x \<noteq> sk \<Longrightarrow> handlers s' x = handlers s x"
    and "point h = Closing \<Longrightarrow> handlers s' sk = None"
    and "point h \<noteq> Closing \<Longrightarrow> \<exists>h'. handlers s' sk = Some h' \<and>
           (point h = Greeting \<longrightarrow> point h' = Registering) \<and>
           (point h = Registering \<longrightarrow> point h' = Confirming) \<and>
           (point h = Removing \<longrightarrow> point h' = Closing) \<and>
           (point h \<noteq> Greeting \<and> point h \<noteq> Removing \<longrightarrow> \<not> unregistered_point (point h'))"
  using assms
  by (auto simp add: handler_step_def move_def Let_def register_client_def unregistered_point_def
      split: pc.splits option.splits prod.splits if_splits list.splits)

lemma exec_Cons_Next:
  "exec net (a # as) s = Next s' \<Longrightarrow> \<exists>s1. step net a s = Next s1 \<and> exec net as s1 = Next s'"
  by (auto split: result.splits)

lemma Next_the_next: "res = Next x \<Longrightarrow> res = Next (the_next res)"
  by simp




lemma accepted_Cons: "accepted (a # as) = accepted [a] @ accepted as"
  by (simp add: accepted_def)

lemma gone_step:
  assumes g: "gone sk s" and st: "step net a s = Next s'" and na: "sk \<notin> set (accepted [a])"
  shows "gone sk s'"
proof (cases a)
  case (Accept x addr)
  with na have "x \<noteq> sk" by (simp add: accepted_def)
  with st Accept g show ?thesis
    by (auto simp: step_def gone_def may_register_def split: if_splits)
next
  case Stop
  with st g show ?thesis by (auto simp: step_def gone_def may_register_def stop_def)
next
  case (Run x f r t)
  with st obtain h where h: "handlers s x = Some h" and hs: "handler_step net x h f r t s = Next s'"
    by (auto simp: step_def split: option.splits)
  note reg = handler_step_registry[OF hs h]
  show ?thesis
  proof (cases "x = sk")
    case False
    then have "handlers s' sk = handlers s sk" using reg(2) by simp
    moreover have "sk \<notin> socket ` set (clients (server s'))"
      using g False reg(1) by (auto simp: gone_def removeClient_def)
    ultimately show ?thesis using g by (simp add: gone_def may_register_def)
  next
    case True
    with g h have p: "point h \<noteq> Greeting" "point h \<noteq> Registering"
      by (auto simp: gone_def may_register_def)
    have cl: "sk \<notin> socket ` set (clients (server s'))"
      using g True reg(1) p by (auto simp: gone_def removeClient_def)
    have "\<not> may_register sk s'"
    proof (cases "point h = Closing")
      case True
      with reg(3) \<open>x = sk\<close> show ?thesis by (simp add: may_register_def)
    next
      case False
      with reg(4) p obtain h' where "handlers s' x = Some h'"
        "point h' = Closing \<or> \<not> unregistered_point (point h')"
        by (cases "point h = Removing") auto
      with \<open>x = sk\<close> show ?thesis by (auto simp: may_register_def unregistered_point_def)
    qed
    with cl show ?thesis by (simp add: gone_def)
  qed
qed

lemma gone_exec:
  "gone sk s \<Longrightarrow> exec net as s = Next s' \<Longrightarrow> sk \<notin> set (accepted as) \<Longrightarrow> gone sk s'"
proof (induction as arbitrary: s)
  case Nil
  then show ?case by simp
next
  case (Cons a as)
  from exec_Cons_Next[OF Cons.prems(2)] obtain s1 where s1: "step net a s = Next s1" "exec net as s1 = Next s'"
    by blast
  from Cons.prems(3) have na: "sk \<notin> set (accepted [a])" "sk \<notin> set (accepted as)"
    using accepted_Cons[of a as] by auto
  from gone_step[OF Cons.prems(1) s1(1) na(1)] have "gone sk s1" .
  from Cons.IH[OF this s1(2) na(2)] show ?case .
qed

lemma gone_after_Removing:
  assumes "handlers s sk = Some h" "point h = Removing" "step net (Run sk f r t) s = Next s1"
  shows "gone sk s1" "clients (server s1) = removeClient sk (clients (server s))"
proof -
  from assms have hs: "handler_step net sk h f r t s = Next s1" by (simp add: step_def)
  note reg = handler_step_registry[OF hs assms(1)]
  show cl: "clients (server s1) = removeClient sk (clients (server s))"
    using reg(1) assms(2) by simp
  from reg(4) assms(2) obtain h' where "handlers s1 sk = Some h'" "point h' = Closing" by auto
  then show "gone sk s1" by (auto simp: gone_def may_register_def cl removeClient_def)
qed

text \<open>From here on the delivery loop is unfolded by \<open>deliver_Cons\<close> only.\<close>

declare deliver.simps(2) [simp del]

lemmas eval_defs =
  greet_unfold relay_body_unfold recv_data_buffer recv_eof_buffer recv_error_buffer recv_fst
  BUFFER_SIZE_def broadcastMessage_def broadcast_targets_def sendRoomHistory_def send_snd send_fst
  c_str_def erase_newlines_def newline_def NUL_def fullMessage_def nowTimestamp_def two_digits_def
  digit_def addToHistory_def history_at_def MAX_HISTORY_def closing_def removeClient_def
  reliable_def dead_peer_def initial_def handleClient_def stop_def deliver_Cons
  alice_def bob_def carol_def noon_def

lemmas conc_defs =
  step_def handler_step_def move_def Let_def go_def say_def boot_def stored_def
  register_client_def send_history.simps case_prod_beta

subsection \<open>A handler that runs alone\<close>

text \<open>
  When no other thread runs in between, the statements of \<open>addToHistory\<close> have the effect
  of the function \<open>addToHistory\<close>, and the steps of the delivery loop that of \<open>deliver\<close>.
\<close>

lemma exec_append:
  "exec net (as @ bs) s =
     (case exec net as s of
        Disabled \<Rightarrow> Disabled
      | Undefined_behaviour \<Rightarrow> Undefined_behaviour
      | Next s' \<Rightarrow> exec net bs s')"
  by (induction as arbitrary: s) (auto split: result.splits)

lemma solo_addToHistory:
  assumes "handlers s sk = Some h" "point h = Add_lookup full"
  shows "\<exists>s'. exec net (if MAX_HISTORY \<le> length (history_at (room_history (server s)) ''general'')
                         then [Run sk f r t, Run sk f r t, Run sk f r t, Run sk f r t]
                         else [Run sk f r t, Run sk f r t, Run sk f r t]) s = Next s'
           \<and> room_history (server s') = addToHistory ''general'' full (room_history (server s))
           \<and> clients (server s') = clients (server s)
           \<and> io (server s') = io (server s)
           \<and> handlers s' = (handlers s)(sk \<mapsto> h\<lparr>point := Relay_targets full\<rparr>)"
proof (cases "MAX_HISTORY \<le> length (history_at (room_history (server s)) ''general'')")
  case True
  then have "history_at (room_history (server s)) ''general'' \<noteq> []"
    by (auto simp: MAX_HISTORY_def)
  with True assms show ?thesis
    by (auto simp add: step_def handler_step_def move_def Let_def addToHistory_def history_at_def
        split: option.splits)
next
  case False
  with assms show ?thesis
    by (auto simp add: step_def handler_step_def move_def Let_def addToHistory_def history_at_def
        split: option.splits)
qed

lemma deliver_one_more:
  "deliver net msg (sk # targets) tr = deliver net msg targets (deliver net msg [sk] tr)"
  by (simp add: deliver_Cons deliver.simps(1))

lemma solo_deliver:
  "handlers s sk = Some h \<Longrightarrow> point h = Relay_deliver full targets \<Longrightarrow>
     \<exists>s'. exec net (replicate (Suc (length targets)) (Run sk f r t)) s = Next s'
        \<and> io (server s') = deliver net full targets (io (server s))
        \<and> clients (server s') = clients (server s)
        \<and> room_history (server s') = room_history (server s)
        \<and> handlers s' = (handlers s)(sk \<mapsto> h\<lparr>point := Loop_top\<rparr>)"
proof (induction targets arbitrary: s h)
  case Nil
  then show ?case
    by (auto simp add: step_def handler_step_def move_def Let_def)
next
  case (Cons x targets)
  define s1 where "s1 = move sk h (Relay_deliver full targets)
                          (s\<lparr>server := (server s)\<lparr>io := deliver net full [x] (io (server s))\<rparr>\<rparr>)"
  have st: "step net (Run sk f r t) s = Next s1"
    using Cons.prems by (simp add: step_def handler_step_def Let_def s1_def)
  have h1: "handlers s1 sk = Some (h\<lparr>point := Relay_deliver full targets\<rparr>)"
    "point (h\<lparr>point := Relay_deliver full targets\<rparr>) = Relay_deliver full targets"
    by (simp_all add: s1_def move_def)
  from Cons.IH[OF h1] obtain s' where s': "exec net (replicate (Suc (length targets)) (Run sk f r t)) s1 = Next s'"
      "io (server s') = deliver net full targets (io (server s1))"
      "clients (server s') = clients (server s1)"
      "room_history (server s') = room_history (server s1)"
      "handlers s' = (handlers s1)(sk \<mapsto> h\<lparr>point := Relay_deliver full targets, point := Loop_top\<rparr>)"
    by blast
  have "exec net (replicate (Suc (length (x # targets))) (Run sk f r t)) s = Next s'"
    using st s'(1) by simp
  moreover have "io (server s') = deliver net full (x # targets) (io (server s))"
    using s'(2) by (simp add: s1_def move_def deliver_one_more[of net full x targets])
  moreover have "clients (server s') = clients (server s)" "room_history (server s') = room_history (server s)"
    using s'(3,4) by (simp_all add: s1_def move_def)
  moreover have "handlers s' = (handlers s)(sk \<mapsto> h\<lparr>point := Loop_top\<rparr>)"
    using s'(5) by (simp add: s1_def move_def)
  ultimately show ?case by blast
qed

subsection \<open>Filling the room\<close>

text \<open>The room after the two joins and \<open>k\<close> passes of A.\<close>

lemma first_pass:
  "\<exists>tr. exec reliable (two_join @ pass) boot = Next (packed 1 tr)"
  by (simp add: two_join_def pass_def packed_def conc_defs eval_defs)

lemma pass_packed:
  "k < 50 \<Longrightarrow>
     exec reliable pass (packed k tr) =
       Next (packed (Suc k) (tr @ [Send 5 ''[12:00:07] A: hi'' 16, Send 5 [newline] 1]))"
  by (simp add: pass_def packed_def conc_defs eval_defs replicate_append_same)

lemma passes_packed:
  "k + n \<le> 50 \<Longrightarrow> \<exists>tr'. exec reliable (concat (replicate n pass)) (packed k tr) = Next (packed (k + n) tr')"
proof (induction n arbitrary: k tr)
  case 0
  show ?case by auto
next
  case (Suc n)
  then have k: "k < 50" and rest: "Suc k + n \<le> 50" by simp_all
  from Suc.IH[OF rest] obtain tr' where
    "exec reliable (concat (replicate n pass))
       (packed (Suc k) (tr @ [Send 5 ''[12:00:07] A: hi'' 16, Send 5 [newline] 1])) = Next (packed (Suc k + n) tr')"
    by blast
  then show ?case using pass_packed[OF k, of tr] by (auto simp: exec_append)
qed

lemma fill_room_packed: "\<exists>tr. exec reliable fill_room boot = Next (packed 50 tr)"
proof -
  from first_pass obtain tr1 where a: "exec reliable (two_join @ pass) boot = Next (packed 1 tr1)"
    by blast
  from passes_packed[of 1 49 tr1] obtain tr2 where
    b: "exec reliable (concat (replicate 49 pass)) (packed 1 tr1) = Next (packed 50 tr2)"
    by auto
  have "exec reliable ((two_join @ pass) @ concat (replicate 49 pass)) boot =
      exec reliable (concat (replicate 49 pass)) (packed 1 tr1)"
    by (subst exec_append) (simp add: a)
  with b have "exec reliable fill_room boot = Next (packed 50 tr2)"
    by (simp add: fill_room_def)
  then show ?thesis by blast
qed

lemma race_packed:
  "stored (exec reliable two_appends_race (packed 50 tr)) =
     Some (replicate 49 ''[12:00:07] A: hi'' @ [''[12:00:07] B: y'', ''[12:00:07] A: x''])"
  by (simp add: two_appends_race_def packed_def conc_defs eval_defs)

subsection \<open>A read that fills the buffer\<close>

text \<open>
  A read that fills the whole buffer leaves it without a terminating zero byte.
\<close>

lemma relay_full_buffer:
  "relay_body net sk nm rm (Recv_data (replicate BUFFER_SIZE (CHR ''x''))) t st = None"
  by (simp add: relay_body_unfold recv_fst recv_data_full NUL_def BUFFER_SIZE_def)

section \<open>The claims\<close>

subsection \<open>C1: the targets of a broadcast\<close>

text \<open>
  Claim C1. For a broadcast in room \<open>rm\<close> with sender socket \<open>s\<close>, the sockets in the
  target list are exactly the sockets of the registered sessions whose room is \<open>rm\<close> and
  whose socket differs from \<open>s\<close>. The sender is never a target. When no socket is
  registered twice, a registered session is a target if and only if it is in room \<open>rm\<close>
  and is not the sender, so a session in another room is never one. The \<open>send\<close> calls of
  \<open>broadcastMessage\<close> go to the targets and to no other socket.
\<close>

theorem broadcast_targets_exact:
  "set (broadcast_targets cs rm s) = {socket c |c. c \<in> set cs \<and> room c = rm \<and> socket c \<noteq> s}
   \<and> s \<notin> set (broadcast_targets cs rm s)
   \<and> (distinct (map socket cs) \<longrightarrow>
        (\<forall>c \<in> set cs. (socket c \<in> set (broadcast_targets cs rm s)) = (room c = rm \<and> socket c \<noteq> s)))
   \<and> (\<exists>new. io (broadcastMessage net msg s rm st) = io st @ new
          \<and> set (sent_to new) = set (broadcast_targets (clients st) rm s))"
proof (intro conjI)
  show "set (broadcast_targets cs rm s) = {socket c |c. c \<in> set cs \<and> room c = rm \<and> socket c \<noteq> s}"
    by (rule set_broadcast_targets)
  show "s \<notin> set (broadcast_targets cs rm s)"
    by (auto simp: broadcast_targets_def)
  show "distinct (map socket cs) \<longrightarrow>
        (\<forall>c \<in> set cs. (socket c \<in> set (broadcast_targets cs rm s)) = (room c = rm \<and> socket c \<noteq> s))"
  proof (intro impI ballI)
    fix c assume d: "distinct (map socket cs)" and c: "c \<in> set cs"
    from d have inj: "inj_on socket (set cs)" by (simp add: distinct_map)
    show "(socket c \<in> set (broadcast_targets cs rm s)) = (room c = rm \<and> socket c \<noteq> s)"
    proof
      assume "socket c \<in> set (broadcast_targets cs rm s)"
      then obtain c' where c': "c' \<in> set cs" "socket c' = socket c" "room c' = rm" "socket c' \<noteq> s"
        by (auto simp: set_broadcast_targets)
      from inj c c'(1,2) have "c' = c" by (auto dest: inj_onD)
      with c' show "room c = rm \<and> socket c \<noteq> s" by simp
    next
      assume "room c = rm \<and> socket c \<noteq> s"
      with c show "socket c \<in> set (broadcast_targets cs rm s)"
        by (auto simp: set_broadcast_targets)
    qed
  qed
  from deliver_extends[of net msg "broadcast_targets (clients st) rm s" "io st"]
  show "\<exists>new. io (broadcastMessage net msg s rm st) = io st @ new
          \<and> set (sent_to new) = set (broadcast_targets (clients st) rm s)"
    by (auto simp: broadcastMessage_io)
qed

theorem broadcast_targets_exact_witness:
  "distinct (map socket [alice, bob, carol])
   \<and> broadcast_targets [alice, bob, carol] ''general'' 4 = [5]
   \<and> socket carol \<notin> set (broadcast_targets [alice, bob, carol] ''general'' 4)"
proof -
  have d: "distinct (map socket [alice, bob, carol])"
    by (simp add: alice_def bob_def carol_def)
  have t: "broadcast_targets [alice, bob, carol] ''general'' 4 = [5]"
    by (simp add: broadcast_targets_def alice_def bob_def carol_def)
  from broadcast_targets_exact [of "[alice, bob, carol]" "''general''" 4]
  have "distinct (map socket [alice, bob, carol]) \<longrightarrow>
        (\<forall>c \<in> set [alice, bob, carol].
           (socket c \<in> set (broadcast_targets [alice, bob, carol] ''general'' 4))
             = (room c = ''general'' \<and> socket c \<noteq> 4))"
    by blast
  with d have "(socket carol \<in> set (broadcast_targets [alice, bob, carol] ''general'' 4))
             = (room carol = ''general'' \<and> socket carol \<noteq> 4)"
    by simp
  then have "socket carol \<notin> set (broadcast_targets [alice, bob, carol] ''general'' 4)"
    by (simp add: carol_def)
  with d t show ?thesis by simp
qed

subsection \<open>C2: the cap of the history\<close>

text \<open>
  Claim C2 says that a room never holds more than 50 messages and that after more than
  50 appends it holds the last 50. That is so for appends that do not overlap
  (\<open>history_at_add_all\<close>). But \<open>addToHistory\<close> takes no lock, and the handlers call it
  from different threads. From the initial state, let A and B join and A send 50
  messages: the room holds 50. Then let A test the size and erase the oldest message, B
  test the size (49, so no erase) and append, and A append: the room holds 51 messages,
  more than the cap. It keeps 51 from then on (\<open>addToHistory_keeps_excess\<close>).
\<close>

theorem cap_lost_when_appends_overlap:
  "stored (exec reliable fill_room boot) = Some (replicate 50 ''[12:00:07] A: hi'')
   \<and> stored (exec reliable (fill_room @ two_appends_race) boot) =
       Some (replicate 49 ''[12:00:07] A: hi'' @ [''[12:00:07] B: y'', ''[12:00:07] A: x''])
   \<and> length (replicate 49 ''[12:00:07] A: hi'' @ [''[12:00:07] B: y'', ''[12:00:07] A: x'']) = 51
   \<and> MAX_HISTORY < 51"
proof -
  from fill_room_packed obtain tr where f: "exec reliable fill_room boot = Next (packed 50 tr)"
    by blast
  have a: "stored (exec reliable fill_room boot) = Some (replicate 50 ''[12:00:07] A: hi'')"
    by (simp add: f stored_def packed_def history_at_def)
  have b: "stored (exec reliable (fill_room @ two_appends_race) boot) =
       Some (replicate 49 ''[12:00:07] A: hi'' @ [''[12:00:07] B: y'', ''[12:00:07] A: x''])"
    using race_packed[of tr] by (simp add: exec_append f)
  show ?thesis using a b by (simp add: MAX_HISTORY_def)
qed

subsection \<open>C3: a peer that disconnects before it sends a name\<close>

text \<open>
  Claim C3 says that a peer who disconnects during the greeting leaves no trace but the
  closing of the transport. The code does not look at the value the first \<open>recv\<close>
  returns. With A (socket 4) in the room and a new connection on socket 5 whose first
  \<open>recv\<close> returns 0, the handler registers a session with the empty name, sends the join
  confirmation to socket 5, and broadcasts the announcement \<open> joined the chat\<close> to A; the
  session is removed and the socket closed only when the \<open>recv\<close> of the relay loop
  returns 0 as well.
\<close>

theorem greeting_ignores_disconnect:
  "greet reliable 5 ''10.0.0.2'' Recv_eof \<lparr>clients = [alice], room_history = Map.empty, io = []\<rparr> =
     Some ([], \<lparr>clients = [alice, \<lparr>socket = 5, name = [], ip = ''10.0.0.2'', room = ''general''\<rparr>],
                room_history = Map.empty,
                io = [Send 5 ''Enter your name: '' 17,
                      Send 5 (''Joined room: general'' @ [newline, NUL]) 22,
                      Send 4 '' joined the chat'' 16,
                      Send 4 [newline] 1]\<rparr>)
   \<and> handleClient reliable 5 ''10.0.0.2'' Recv_eof [(True, Recv_eof, noon)]
        \<lparr>clients = [alice], room_history = Map.empty, io = []\<rparr> =
     Some (Finished \<lparr>clients = [alice], room_history = Map.empty,
                io = [Send 5 ''Enter your name: '' 17,
                      Send 5 (''Joined room: general'' @ [newline, NUL]) 22,
                      Send 4 '' joined the chat'' 16,
                      Send 4 [newline] 1,
                      Close 5]\<rparr>)"
  by (simp add: eval_defs)

subsection \<open>C4: the bytes of the join confirmation\<close>

text \<open>
  Claim C4 says that the join confirmation is the 21 bytes \<open>Joined room: general\n\<close>.
  The code calls \<open>send\<close> with the length \<open>room.size() + 15\<close>, which is 22: whenever the
  greeting goes through, the second \<open>send\<close> on the client's socket carries the 21 bytes
  and, after the newline, the zero byte that ends the C string. (The prompt before it is
  sent with its own length, 17.)
\<close>

theorem join_confirmation_bytes:
  "(greet net sk addr r st = None
      \<or> (\<exists>nm st' r1 r2 rest. greet net sk addr r st = Some (nm, st')
            \<and> io st' = io st @ Send sk ''Enter your name: '' r1
                  # Send sk (''Joined room: general'' @ [newline, NUL]) r2 # rest))
   \<and> length (''Joined room: general'' @ [newline, NUL]) = 22
   \<and> greet reliable 4 ''10.0.0.1'' (Recv_data (''A'' @ [newline])) initial =
       Some (''A'', \<lparr>clients = [alice], room_history = Map.empty,
                     io = [Send 4 ''Enter your name: '' 17,
                           Send 4 (''Joined room: general'' @ [newline, NUL]) 22]\<rparr>)"
proof (intro conjI)
  show "greet net sk addr r st = None
      \<or> (\<exists>nm st' r1 r2 rest. greet net sk addr r st = Some (nm, st')
            \<and> io st' = io st @ Send sk ''Enter your name: '' r1
                  # Send sk (''Joined room: general'' @ [newline, NUL]) r2 # rest)"
  proof (cases "greet net sk addr r st")
    case None
    then show ?thesis by simp
  next
    case (Some p)
    obtain nm st' where p: "p = (nm, st')" by (cases p)
    from greet_trace[of net sk addr r st nm st'] Some p
    show ?thesis by auto
  qed
  show "length (''Joined room: general'' @ [newline, NUL]) = 22" by simp
  show "greet reliable 4 ''10.0.0.1'' (Recv_data (''A'' @ [newline])) initial =
       Some (''A'', \<lparr>clients = [alice], room_history = Map.empty,
                     io = [Send 4 ''Enter your name: '' 17,
                           Send 4 (''Joined room: general'' @ [newline, NUL]) 22]\<rparr>)"
    by (simp add: eval_defs)
qed

subsection \<open>C5: registration\<close>



subsection \<open>C6: one read in the relay loop\<close>

text \<open>
  Claim C6 says that the handler trims the trailing newline of a received line. The code
  erases every newline of the read: the read \<open>a\nb\n\<close> is stored and broadcast as the
  one message \<open>ab\<close>, where trimming the trailing newline gives \<open>a\nb\<close>.
\<close>

theorem relay_erases_every_newline_counterexample:
  "relay_body reliable 4 ''A'' ''general'' (Recv_data (''a'' @ [newline] @ ''b'' @ [newline])) noon
        \<lparr>clients = [alice, bob], room_history = Map.empty, io = []\<rparr> =
      Some (Continue \<lparr>clients = [alice, bob],
                      room_history = [''general'' \<mapsto> [''[12:00:07] A: ab'']],
                      io = [Send 5 ''[12:00:07] A: ab'' 16, Send 5 [newline] 1]\<rparr>)
   \<and> ''[12:00:07] A: ab''
        \<noteq> ''[12:00:07] A: '' @ spec_trim_trailing_newline (''a'' @ [newline] @ ''b'' @ [newline])"
  by (simp add: eval_defs spec_trim_trailing_newline_def)

text \<open>
  Claim C6, as the code has it. Let the relay loop of the handler with socket \<open>sk\<close> and
  name \<open>nm\<close> read between 1 and 1023 bytes. The text of the message is the bytes before
  the first zero byte, without any newline among them (for a read that is one line this
  is the line without its trailing newline). The pass goes on (no \<open>break\<close>); the message
  is \<open>[HH:MM:SS] nm: text\<close>, the time stamp made of the two-digit hour, minute and second
  of the local time; it is appended to the history of the room (it is the last entry
  afterwards), and it is handed to every target of the broadcast, which are the sessions
  of the room other than the sender. The registry is unchanged. A read that is only a
  newline gives the empty text and is no exception.
\<close>

theorem relay_read:
  assumes "0 < length d" "length d < BUFFER_SIZE"
  shows "\<exists>st' new.
      relay_body net sk nm rm (Recv_data d) t st = Some (Continue st')
      \<and> room_history st' =
          addToHistory rm (''['' @ nowTimestamp t @ ''] '' @ nm @ '': ''
              @ filter (\<lambda>c. c \<noteq> CHR 0x0A) (takeWhile (\<lambda>c. c \<noteq> CHR 0x00) d)) (room_history st)
      \<and> last (history_at (room_history st') rm) =
          ''['' @ nowTimestamp t @ ''] '' @ nm @ '': ''
              @ filter (\<lambda>c. c \<noteq> CHR 0x0A) (takeWhile (\<lambda>c. c \<noteq> CHR 0x00) d)
      \<and> clients st' = clients st
      \<and> io st' = io st @ new
      \<and> attempts (''['' @ nowTimestamp t @ ''] '' @ nm @ '': ''
              @ filter (\<lambda>c. c \<noteq> CHR 0x0A) (takeWhile (\<lambda>c. c \<noteq> CHR 0x00) d)) new
          = broadcast_targets (clients st) rm sk
      \<and> sk \<notin> set (broadcast_targets (clients st) rm sk)
      \<and> nowTimestamp t =
          [digit (tm_hour t div 10 mod 10), digit (tm_hour t mod 10), CHR '':'',
           digit (tm_min t div 10 mod 10), digit (tm_min t mod 10), CHR '':'',
           digit (tm_sec t div 10 mod 10), digit (tm_sec t mod 10)]"
proof -
  define body where "body = filter (\<lambda>c. c \<noteq> CHR 0x0A) (takeWhile (\<lambda>c. c \<noteq> CHR 0x00) d)"
  define full where "full = ''['' @ nowTimestamp t @ ''] '' @ nm @ '': '' @ body"
  define st1 where "st1 = st\<lparr>room_history := addToHistory rm full (room_history st)\<rparr>"
  define st' where "st' = broadcastMessage net full sk rm st1"
  have buf: "string_of_buffer (snd (recv (Recv_data d))) = Some (takeWhile (\<lambda>c. c \<noteq> NUL) d)"
    using assms(2) by (rule recv_data_buffer)
  have pos: "0 < fst (recv (Recv_data d))"
    using assms by (simp add: recv_fst)
  have f: "fullMessage t nm (erase_newlines (takeWhile (\<lambda>c. c \<noteq> NUL) d)) = full"
    by (simp add: fullMessage_def erase_newlines_def full_def body_def NUL_def newline_def)
  have rb: "relay_body net sk nm rm (Recv_data d) t st = Some (Continue st')"
    using pos by (simp add: relay_body_unfold buf f st'_def st1_def)
  have hist: "room_history st' = addToHistory rm full (room_history st)"
    by (simp add: st'_def st1_def)
  have lst: "last (history_at (room_history st') rm) = full"
    by (simp only: hist history_at_addToHistory_last)
  have cl: "clients st' = clients st" by (simp add: st'_def st1_def)
  have "length full \<noteq> length [newline]" by (simp add: full_def)
  then have "full \<noteq> [newline]" by auto
  then obtain new where new: "io st' = io st1 @ new"
      "attempts full new = broadcast_targets (clients st1) rm sk"
    unfolding st'_def using broadcastMessage_extends[of net full sk rm st1] by blast
  then have io: "io st' = io st @ new" "attempts full new = broadcast_targets (clients st) rm sk"
    by (simp_all add: st1_def)
  have excl: "sk \<notin> set (broadcast_targets (clients st) rm sk)"
    by (auto simp: broadcast_targets_def)
  have ts: "nowTimestamp t =
          [digit (tm_hour t div 10 mod 10), digit (tm_hour t mod 10), CHR '':'',
           digit (tm_min t div 10 mod 10), digit (tm_min t mod 10), CHR '':'',
           digit (tm_sec t div 10 mod 10), digit (tm_sec t mod 10)]"
    by (simp add: nowTimestamp_def two_digits_def)
  from rb hist lst cl io excl ts show ?thesis unfolding full_def body_def by blast
qed

theorem relay_read_witness:
  "0 < length [newline] \<and> length [newline] < BUFFER_SIZE
   \<and> relay_body reliable 4 ''A'' ''general'' (Recv_data [newline]) noon
        \<lparr>clients = [alice, bob], room_history = Map.empty, io = []\<rparr> =
      Some (Continue \<lparr>clients = [alice, bob],
                      room_history = [''general'' \<mapsto> [''[12:00:07] A: '']],
                      io = [Send 5 ''[12:00:07] A: '' 14, Send 5 [newline] 1]\<rparr>)
   \<and> (\<exists>st'. relay_body reliable 4 ''A'' ''general'' (Recv_data [newline]) noon
        \<lparr>clients = [alice, bob], room_history = Map.empty, io = []\<rparr> = Some (Continue st')
        \<and> last (history_at (room_history st') ''general'') = ''['' @ nowTimestamp noon @ ''] A: '')"
proof -
  let ?st = "\<lparr>clients = [alice, bob], room_history = Map.empty, io = []\<rparr>"
  have a: "0 < length [newline]" "length [newline] < BUFFER_SIZE"
    by (simp_all add: BUFFER_SIZE_def)
  have e: "relay_body reliable 4 ''A'' ''general'' (Recv_data [newline]) noon ?st =
      Some (Continue \<lparr>clients = [alice, bob],
                      room_history = [''general'' \<mapsto> [''[12:00:07] A: '']],
                      io = [Send 5 ''[12:00:07] A: '' 14, Send 5 [newline] 1]\<rparr>)"
    by (simp add: eval_defs)
  have t: "filter (\<lambda>c. c \<noteq> CHR 0x0A) (takeWhile (\<lambda>c. c \<noteq> CHR 0x00) [newline]) = []"
    by (simp add: newline_def)
  from relay_read [OF a, of reliable 4 "''A''" "''general''" noon ?st]
  have "\<exists>st'. relay_body reliable 4 ''A'' ''general'' (Recv_data [newline]) noon ?st = Some (Continue st')
        \<and> last (history_at (room_history st') ''general'') = ''['' @ nowTimestamp noon @ ''] A: ''"
    unfolding t by auto
  with a e show ?thesis by blast
qed

subsection \<open>C7: removing a session\<close>

text \<open>
  Claim C7. \<open>removeClient\<close> is idempotent, and on a socket that is not registered it
  leaves the registry as it is; it has no error result. After it, the socket is in no
  target list: neither at once, nor after any further steps of the program, interleaved
  in any way (steps of this and of other handlers, new connections on other sockets,
  \<open>stop\<close>), as long as \<open>accept\<close> does not return the socket again.
\<close>

theorem removeClient_idempotent:
  "removeClient sk (removeClient sk cs) = removeClient sk cs
   \<and> (sk \<notin> socket ` set cs \<longrightarrow> removeClient sk cs = cs)
   \<and> sk \<notin> set (broadcast_targets (removeClient sk cs) rm s)
   \<and> (handlers st sk = Some h \<and> point h = Removing \<and> step net (Run sk f r t) st = Next st1
        \<and> exec net as st1 = Next st' \<and> sk \<notin> set (accepted as)
        \<longrightarrow> clients (server st1) = removeClient sk (clients (server st))
            \<and> sk \<notin> set (broadcast_targets (clients (server st')) rm s))"
proof (intro conjI impI)
  show "removeClient sk (removeClient sk cs) = removeClient sk cs" by (rule removeClient_idem)
  show "removeClient sk cs = cs" if "sk \<notin> socket ` set cs" using that by (rule removeClient_absent)
  show "sk \<notin> set (broadcast_targets (removeClient sk cs) rm s)" by (rule removeClient_not_target)
  assume a: "handlers st sk = Some h \<and> point h = Removing \<and> step net (Run sk f r t) st = Next st1
        \<and> exec net as st1 = Next st' \<and> sk \<notin> set (accepted as)"
  then have g: "gone sk st1" and c: "clients (server st1) = removeClient sk (clients (server st))"
    using gone_after_Removing[of st sk h net f r t st1] by blast+
  show "clients (server st1) = removeClient sk (clients (server st))" by (rule c)
  from g a have "gone sk st'" by (blast intro: gone_exec)
  then have "sk \<notin> socket ` set (clients (server st'))" by (simp add: gone_def)
  then show "sk \<notin> set (broadcast_targets (clients (server st')) rm s)"
    using targets_subset[of "clients (server st')" rm s] by auto
qed

theorem removeClient_idempotent_witness:
  "9 \<notin> socket ` set [alice, bob]
   \<and> removeClient 9 [alice, bob] = [alice, bob]
   \<and> handlers leaving 4 = Some \<lparr>peer = ''10.0.0.1'', nick = ''A'', point = Removing\<rparr>
   \<and> step reliable (go 4) leaving = Next (the_next (step reliable (go 4) leaving))
   \<and> exec reliable [go 4, say 5 ''yo'', go 5, go 5, go 5, go 5] (the_next (step reliable (go 4) leaving))
        = Next (the_next (exec reliable [go 4, say 5 ''yo'', go 5, go 5, go 5, go 5]
                  (the_next (step reliable (go 4) leaving))))
   \<and> 4 \<notin> set (accepted [go 4, say 5 ''yo'', go 5, go 5, go 5, go 5])
   \<and> clients (server (the_next (step reliable (go 4) leaving))) = [bob]
   \<and> 4 \<notin> set (broadcast_targets (clients (server (the_next (exec reliable
          [go 4, say 5 ''yo'', go 5, go 5, go 5, go 5] (the_next (step reliable (go 4) leaving)))))) ''general'' 5)"
proof -
  let ?as = "[go 4, say 5 ''yo'', go 5, go 5, go 5, go 5]"
  let ?h = "\<lparr>peer = ''10.0.0.1'', nick = ''A'', point = Removing\<rparr>"
  let ?s1 = "the_next (step reliable (go 4) leaving)"
  let ?s2 = "the_next (exec reliable ?as ?s1)"
  have a: "9 \<notin> socket ` set [alice, bob]" by (simp add: alice_def bob_def)
  have h: "handlers leaving 4 = Some ?h" by (simp add: leaving_def)
  have "step reliable (go 4) leaving = Next
      \<lparr>server = \<lparr>clients = [bob], room_history = Map.empty, io = []\<rparr>,
       handlers = [5 \<mapsto> \<lparr>peer = ''10.0.0.2'', nick = ''B'', point = Loop_top\<rparr>,
                   4 \<mapsto> \<lparr>peer = ''10.0.0.1'', nick = ''A'', point = Closing\<rparr>],
       accepting = True, version = (\<lambda>rm. 0)\<rparr>"
    by (simp add: leaving_def conc_defs eval_defs)
  then have s1: "step reliable (go 4) leaving = Next ?s1"
    and s1v: "?s1 = \<lparr>server = \<lparr>clients = [bob], room_history = Map.empty, io = []\<rparr>,
       handlers = [5 \<mapsto> \<lparr>peer = ''10.0.0.2'', nick = ''B'', point = Loop_top\<rparr>,
                   4 \<mapsto> \<lparr>peer = ''10.0.0.1'', nick = ''A'', point = Closing\<rparr>],
       accepting = True, version = (\<lambda>rm. 0)\<rparr>"
    by simp_all
  have "\<exists>x. exec reliable ?as ?s1 = Next x"
    unfolding s1v by (simp add: conc_defs eval_defs)
  then have s2: "exec reliable ?as ?s1 = Next ?s2" by auto
  have acc: "4 \<notin> set (accepted ?as)" by (simp add: accepted_def go_def say_def)
  have p: "point ?h = Removing" by simp
  from removeClient_idempotent [of 9 "[alice, bob]"] a
  have c1: "removeClient 9 [alice, bob] = [alice, bob]" by blast
  from removeClient_idempotent [of 4 _ "''general''" 5 leaving ?h reliable True Recv_eof noon ?s1 ?as ?s2]
    h p s1 s2 acc
  have c2: "clients (server ?s1) = removeClient 4 (clients (server leaving))
      \<and> 4 \<notin> set (broadcast_targets (clients (server ?s2)) ''general'' 5)"
    unfolding go_def by blast
  then have c3: "clients (server ?s1) = [bob]"
    by (simp add: leaving_def removeClient_def alice_def bob_def)
  from c2 have c4: "4 \<notin> set (broadcast_targets (clients (server ?s2)) ''general'' 5)" by simp
  show ?thesis by (intro conjI a c1 h s1 s2 acc c3 c4)
qed

subsection \<open>C8: a failed write does not stop the delivery\<close>

text \<open>
  Claim C8. Whatever the \<open>send\<close> calls return, the delivery loop hands the message to
  every socket of the target list, once per entry and in the order of the list: a negative
  result only skips the newline for that target. \<open>broadcastMessage\<close> returns nothing to its
  caller and changes neither the registry nor the history. (The message is told apart from
  the newline that follows it by its bytes, hence the premise that it is not a lone
  newline; no message the handler broadcasts is.)
\<close>

theorem deliver_isolates_failures:
  "msg \<noteq> [newline] \<longrightarrow>
     (\<exists>new. io (broadcastMessage net msg s rm st) = io st @ new
        \<and> attempts msg new = broadcast_targets (clients st) rm s)
     \<and> (\<exists>new. deliver net msg targets tr = tr @ new \<and> attempts msg new = targets)
     \<and> clients (broadcastMessage net msg s rm st) = clients st
     \<and> room_history (broadcastMessage net msg s rm st) = room_history st"
proof (intro impI conjI)
  assume m: "msg \<noteq> [newline]"
  from deliver_extends[of net msg "broadcast_targets (clients st) rm s" "io st"] m
  show "\<exists>new. io (broadcastMessage net msg s rm st) = io st @ new
        \<and> attempts msg new = broadcast_targets (clients st) rm s"
    by (auto simp: broadcastMessage_io)
  from deliver_extends[of net msg targets tr] m
  show "\<exists>new. deliver net msg targets tr = tr @ new \<and> attempts msg new = targets"
    by auto
qed simp_all

theorem deliver_isolates_failures_witness:
  "''hi'' \<noteq> [newline]
   \<and> deliver (dead_peer 4) ''hi'' [4, 5, 6] [] =
       [Send 4 ''hi'' (- 1), Send 5 ''hi'' 2, Send 5 [newline] 1, Send 6 ''hi'' 2, Send 6 [newline] 1]
   \<and> attempts ''hi'' (deliver (dead_peer 4) ''hi'' [4, 5, 6] []) = [4, 5, 6]"
proof -
  have n: "''hi'' \<noteq> [newline]" by simp
  have d: "deliver (dead_peer 4) ''hi'' [4, 5, 6] [] =
       [Send 4 ''hi'' (- 1), Send 5 ''hi'' 2, Send 5 [newline] 1, Send 6 ''hi'' 2, Send 6 [newline] 1]"
    by (simp add: deliver_Cons dead_peer_def)
  from deliver_isolates_failures [of "''hi''" "dead_peer 4" _ _ _ "[4, 5, 6]" "[]"] n
  have "\<exists>new. deliver (dead_peer 4) ''hi'' [4, 5, 6] [] = [] @ new \<and> attempts ''hi'' new = [4, 5, 6]"
    by blast
  then have "attempts ''hi'' (deliver (dead_peer 4) ''hi'' [4, 5, 6] []) = [4, 5, 6]"
    by auto
  with n d show ?thesis by simp
qed

subsection \<open>C10: what a newcomer is sent from the history\<close>

text \<open>
  Claim C10 says that the history replay of a newcomer holds stored relay messages only.
  No statement of the join stores the announcement. But \<open>sendRoomHistory\<close> walks the
  vector without a lock while the relay loops of other handlers modify it. Let A join and
  send \<open>hi\<close>, let C be accepted and start its replay, and let A store its next message
  before C has sent the first line: the replay goes on with iterators that \<open>push_back\<close>
  has invalidated, which is undefined, so what C is sent is no longer given by the stored
  messages.
\<close>

theorem replay_overlapping_append_is_undefined:
  "exec reliable (join_during_relay @ [go 6]) boot = Undefined_behaviour
   \<and> stored (exec reliable join_during_relay boot) = Some [''[12:00:07] A: hi'', ''[12:00:07] A: yo'']"
  by (simp add: join_during_relay_def conc_defs eval_defs)

end
